theory Spec2Isabelle
  imports Complex_Main
begin

section \<open>HTTP replies\<close>

text \<open>
  Every handler of \<^verbatim>\<open>server.js\<close> ends in \<^verbatim>\<open>res.json(...)\<close>, with the status set by
  \<^verbatim>\<open>res.status(n)\<close> or left at Express's default 200. A body is either the error object
  \<^verbatim>\<open>{ error: msg }\<close> or the endpoint's payload.
\<close>

datatype 'a body = Error string | Payload 'a

datatype 'a reply = Reply (status: nat) (body: "'a body")

text \<open>
  JavaScript truthiness of a value that is \<^verbatim>\<open>undefined\<close> or a string: \<^verbatim>\<open>undefined\<close> and the
  empty string are falsy. Environment variables and query parameters have this shape.
\<close>

definition truthy :: "string option \<Rightarrow> bool" where
  "truthy v = (case v of None \<Rightarrow> False | Some s \<Rightarrow> s \<noteq> [])"

section \<open>Strings\<close>

text \<open>
  A JavaScript string is modelled as a \<^typ>\<open>string\<close> whose characters are the code units
  below 256. \<^verbatim>\<open>String.prototype.trim\<close> removes white space and line terminators from both
  ends; in that range these are TAB, LF, VT, FF, CR, SPACE and NBSP.
\<close>

definition newline :: char where
  "newline = CHR 0x0A"

definition js_space :: "char \<Rightarrow> bool" where
  "js_space c = (c \<in> set [CHR 0x09, CHR 0x0A, CHR 0x0B, CHR 0x0C, CHR 0x0D, CHR 0x20, CHR 0xA0])"

definition trim :: "string \<Rightarrow> string" where
  "trim s = rev (dropWhile js_space (rev (dropWhile js_space s)))"

text \<open>\<^verbatim>\<open>s.startsWith(p)\<close> and \<^verbatim>\<open>s.endsWith(p)\<close>.\<close>

definition startsWith :: "string \<Rightarrow> string \<Rightarrow> bool" where
  "startsWith s p = (take (length p) s = p)"

definition endsWith :: "string \<Rightarrow> string \<Rightarrow> bool" where
  "endsWith s p = (length p \<le> length s \<and> drop (length s - length p) s = p)"

text \<open>\<^verbatim>\<open>xs.join(sep)\<close>\<close>

fun join :: "string \<Rightarrow> string list \<Rightarrow> string" where
  "join sep [] = []"
| "join sep [x] = x"
| "join sep (x # y # ys) = x @ sep @ join sep (y # ys)"

text \<open>
  The \<^verbatim>\<open>i\<close> flag of a regular expression compares canonicalised characters, and without
  the \<^verbatim>\<open>u\<close> flag the canonical form is the upper-case one, except that a character
  outside ASCII is never given an ASCII canonical form. The patterns of this program hold
  ASCII characters only, so to decide a match it is enough to bring the letters a to z
  to upper case and to leave every other character as it is.
\<close>

definition canonicalize :: "char \<Rightarrow> char" where
  "canonicalize c =
     (let n = (of_char c :: nat) in if 97 \<le> n \<and> n \<le> 122 then char_of (n - 32) else c)"

text \<open>
  A literal pattern matched case-insensitively at the start of the subject; the result is
  the text after the match.
\<close>

fun match_literal_ci :: "string \<Rightarrow> string \<Rightarrow> string option" where
  "match_literal_ci [] s = Some s"
| "match_literal_ci (p # ps) [] = None"
| "match_literal_ci (p # ps) (c # cs) =
     (if canonicalize c = canonicalize p then match_literal_ci ps cs else None)"

text \<open>The greedy \<^verbatim>\<open>\n?\<close> that follows an opening fence.\<close>

definition optional_newline :: "string \<Rightarrow> string" where
  "optional_newline s = (case s of [] \<Rightarrow> [] | c # cs \<Rightarrow> if c = newline then cs else s)"

definition fence :: string where
  "fence = [CHR 0x60, CHR 0x60, CHR 0x60]"

text \<open>
  The three replacements of the conversion handler. None has the \<^verbatim>\<open>g\<close> or \<^verbatim>\<open>m\<close> flag, so
  \<^verbatim>\<open>^\<close> matches at index 0 only, \<^verbatim>\<open>$\<close> at the end of the string only, and at most one
  match is replaced.

  \<^verbatim>\<open>s.replace(/^```lua\n?/i, "")\<close>
\<close>

definition strip_lua_fence :: "string \<Rightarrow> string" where
  "strip_lua_fence s =
     (case match_literal_ci (fence @ ''lua'') s of
        Some rest \<Rightarrow> optional_newline rest
      | None \<Rightarrow> s)"

text \<open>\<^verbatim>\<open>s.replace(/^```\n?/i, "")\<close>\<close>

definition strip_plain_fence :: "string \<Rightarrow> string" where
  "strip_plain_fence s =
     (case match_literal_ci fence s of
        Some rest \<Rightarrow> optional_newline rest
      | None \<Rightarrow> s)"

text \<open>
  \<^verbatim>\<open>s.replace(/\n?```$/i, "")\<close>: the leftmost match that reaches the end of the string
  starts at the line feed before the last three backquotes when there is one, and at
  those backquotes otherwise.
\<close>

definition strip_trailing_fence :: "string \<Rightarrow> string" where
  "strip_trailing_fence s =
     (if endsWith s (newline # fence) then take (length s - 4) s
      else if endsWith s fence then take (length s - 3) s
      else s)"

text \<open>
  \<^verbatim>\<open>luaCode.replace(/^```lua\n?/i, "").replace(/^```\n?/i, "").replace(/\n?```$/i, "").trim()\<close>
\<close>

definition strip_code_fences :: "string \<Rightarrow> string" where
  "strip_code_fences luaCode =
     trim (strip_trailing_fence (strip_plain_fence (strip_lua_fence luaCode)))"

section \<open>Conversion proxy\<close>

text \<open>
  The request body, as the handler's comment documents it:
  \<^verbatim>\<open>{ filePath: "src/main.rs", code: "fn main() { ... }", originalLang: "Rust" }\<close>.
  Each field is a string or absent.
\<close>

record convert_request =
  filePath :: "string option"
  code :: "string option"
  originalLang :: "string option"

text \<open>\<^verbatim>\<open>v || d\<close> for a string-or-undefined \<^verbatim>\<open>v\<close> and a string \<^verbatim>\<open>d\<close>.\<close>

definition or_else :: "string option \<Rightarrow> string \<Rightarrow> string" where
  "or_else v d = (case v of None \<Rightarrow> d | Some s \<Rightarrow> if s = [] then d else s)"

text \<open>\<^verbatim>\<open>${v}\<close> inside a template literal: \<^verbatim>\<open>undefined\<close> is printed as the word.\<close>

definition interpolate :: "string option \<Rightarrow> string" where
  "interpolate v = (case v of None \<Rightarrow> ''undefined'' | Some s \<Rightarrow> s)"

definition build_prompt :: "convert_request \<Rightarrow> string" where
  "build_prompt req = join [newline]
     [''You are a Lua code conversion expert. Convert the following ''
        @ or_else (originalLang req) ''code'' @ '' into pure Lua 5.1 code.'',
      [],
      ''Rules:'',
      ''- Output ONLY the converted Lua code. No explanations, no markdown, no comments unless they are necessary.'',
      ''- The converted code must be valid Lua 5.1 syntax.'',
      ''- Make it functional and preserve the original logic as much as possible.'',
      ''- If something cannot be directly translated to Lua, find the closest Lua equivalent.'',
      ''- Do NOT use any external libraries or modules that are not part of Lua 5.1 standard library.'',
      ''- If the file is a build config or tool-specific file (like Cargo.toml, package.json), convert its logic/purpose into a Lua script that achieves the same goal where possible.'',
      [],
      ''Original file: '' @ interpolate (filePath req),
      ''Original language: '' @ or_else (originalLang req) ''unknown'',
      [],
      ''Code to convert:'',
      fence,
      interpolate (code req),
      fence,
      [],
      ''Converted Lua 5.1 code:'']"

text \<open>The request sent by \<^verbatim>\<open>axios.post\<close>: one user message and the fixed parameters.\<close>

record groq_call =
  url :: string
  model :: string
  content :: string
  temperature :: real
  max_tokens :: nat
  authorization :: string

text \<open>
  What the awaited call gives back. The error that axios throws carries its own message
  and, when the service answered, the response with its status and body; of the body the
  handler reads \<^verbatim>\<open>data.error.message\<close> and \<^verbatim>\<open>data.message\<close>.
\<close>

record upstream_data =
  data_error_message :: "string option"
  data_message :: "string option"

record upstream_response =
  response_status :: nat
  response_data :: "upstream_data option"

record caught_error =
  err_message :: string
  err_response :: "upstream_response option"

text \<open>
  \<open>Completed c\<close>: the call resolved and \<^verbatim>\<open>response.data.choices[0].message.content\<close> is the
  string \<open>c\<close>. \<open>Malformed m\<close>: the call resolved but that chain of reads (or \<^verbatim>\<open>.trim()\<close>)
  throws a TypeError with message \<open>m\<close>. \<open>Failed e\<close>: the call rejected with \<open>e\<close>.
\<close>

datatype completion = Completed string | Malformed string | Failed caught_error

text \<open>What a run of the handler did besides answering.\<close>

datatype event = PromptBuilt string | Posted groq_call

record convert_payload =
  convertedCode :: string
  payload_filePath :: "string option"

text \<open>
  The \<^verbatim>\<open>catch\<close> block:
  \<^verbatim>\<open>err.response?.data?.error?.message || err.response?.data?.message || err.message\<close>
  and \<^verbatim>\<open>err.response?.status || 500\<close>.
\<close>

definition nested_error_message :: "caught_error \<Rightarrow> string option" where
  "nested_error_message err =
     (case err_response err of None \<Rightarrow> None
      | Some r \<Rightarrow> (case response_data r of None \<Rightarrow> None | Some d \<Rightarrow> data_error_message d))"

definition generic_message :: "caught_error \<Rightarrow> string option" where
  "generic_message err =
     (case err_response err of None \<Rightarrow> None
      | Some r \<Rightarrow> (case response_data r of None \<Rightarrow> None | Some d \<Rightarrow> data_message d))"

definition failure_message :: "caught_error \<Rightarrow> string" where
  "failure_message err =
     or_else (nested_error_message err) (or_else (generic_message err) (err_message err))"

definition failure_status :: "caught_error \<Rightarrow> nat" where
  "failure_status err =
     (case err_response err of None \<Rightarrow> 500
      | Some r \<Rightarrow> if response_status r = 0 then 500 else response_status r)"

definition convert_catch :: "caught_error \<Rightarrow> convert_payload reply" where
  "convert_catch err = Reply (failure_status err) (Error (failure_message err))"

definition make_call :: "string \<Rightarrow> string \<Rightarrow> groq_call" where
  "make_call key prompt =
     \<lparr>url = ''https://api.groq.com/openai/v1/chat/completions'',
      model = ''llama3-70b-8192'',
      content = prompt,
      temperature = 2 / 10,
      max_tokens = 4096,
      authorization = ''Bearer '' @ key\<rparr>"

text \<open>
  \<^verbatim>\<open>app.post("/api/convert", ...)\<close>. The service is a parameter: what it answers to a call.
  The result is the reply and what the handler did, in order.
\<close>

definition convert ::
  "string option \<Rightarrow> (groq_call \<Rightarrow> completion) \<Rightarrow> convert_request
     \<Rightarrow> convert_payload reply \<times> event list" where
  "convert GROQ_API_KEY groq req =
     (if \<not> truthy GROQ_API_KEY then
        (Reply 500 (Error ''GROQ_API_KEY is not set in environment variables''), [])
      else if \<not> truthy (code req) then
        (Reply 400 (Error ''No code provided''), [])
      else
        let prompt = build_prompt req;
            call = make_call (interpolate GROQ_API_KEY) prompt;
            done = [PromptBuilt prompt, Posted call]
        in (case groq call of
              Completed c \<Rightarrow>
                (Reply 200 (Payload \<lparr>convertedCode = strip_code_fences (trim c),
                                      payload_filePath = filePath req\<rparr>), done)
            | Malformed m \<Rightarrow>
                (convert_catch \<lparr>err_message = m, err_response = None\<rparr>, done)
            | Failed err \<Rightarrow> (convert_catch err, done)))"

section \<open>Paths\<close>

text \<open>
  \<^verbatim>\<open>path.join\<close> of Node on a POSIX host. The non-empty arguments are joined with a slash and
  the result is normalised: empty segments and \<^verbatim>\<open>.\<close> are dropped, \<^verbatim>\<open>..\<close> removes the segment
  before it, and where there is none it is kept for a relative path and dropped for an
  absolute one. A trailing slash survives.

  \<^verbatim>\<open>s.split(sep)\<close> for a one-character separator:
\<close>

fun split_on :: "char \<Rightarrow> string \<Rightarrow> string list" where
  "split_on sep [] = [[]]"
| "split_on sep (c # cs) =
     (if c = sep then [] # split_on sep cs
      else (case split_on sep cs of
              [] \<Rightarrow> [[c]]
            | x # xs \<Rightarrow> (c # x) # xs))"

text \<open>
  The loop of \<^verbatim>\<open>normalizeString\<close>, one segment at a time; \<open>out\<close> holds the segments of the
  result so far.
\<close>

fun resolve_segments :: "bool \<Rightarrow> string list \<Rightarrow> string list \<Rightarrow> string list" where
  "resolve_segments allowAboveRoot out [] = out"
| "resolve_segments allowAboveRoot out (seg # segs) =
     (if seg = [] \<or> seg = ''.'' then resolve_segments allowAboveRoot out segs
      else if seg = ''..'' then
        (if out \<noteq> [] \<and> last out \<noteq> ''..'' then
           resolve_segments allowAboveRoot (butlast out) segs
         else if allowAboveRoot then resolve_segments allowAboveRoot (out @ [''..'']) segs
         else resolve_segments allowAboveRoot out segs)
      else resolve_segments allowAboveRoot (out @ [seg]) segs)"

definition normalizeString :: "string \<Rightarrow> bool \<Rightarrow> string" where
  "normalizeString p allowAboveRoot =
     join ''/'' (resolve_segments allowAboveRoot [] (split_on (CHR ''/'') p))"

definition normalize :: "string \<Rightarrow> string" where
  "normalize p =
     (if p = [] then ''.''
      else
        let isAbsolute = (hd p = CHR ''/'');
            trailingSeparator = (last p = CHR ''/'');
            q = normalizeString p (\<not> isAbsolute)
        in if q = [] then (if isAbsolute then ''/'' else if trailingSeparator then ''./'' else ''.'')
           else
             let q' = (if trailingSeparator then q @ ''/'' else q)
             in if isAbsolute then ''/'' @ q' else q')"

text \<open>\<^verbatim>\<open>path.join(a, b)\<close>\<close>

definition path_join :: "string \<Rightarrow> string \<Rightarrow> string" where
  "path_join a b =
     (if a = [] \<and> b = [] then ''.''
      else if a = [] then normalize b
      else if b = [] then normalize a
      else normalize (a @ ''/'' @ b))"

section \<open>Content fetcher, local mode\<close>

record content_payload =
  content_text :: string
  content_path :: string

text \<open>
  \<^verbatim>\<open>app.get("/api/file-content", ...)\<close> of the local variant. \<open>dirname\<close> is \<^verbatim>\<open>__dirname\<close>;
  \<open>readFileSync\<close> answers for the disk: the decoded text of the file at an absolute path,
  or the message of the error it throws. The query parameter is a string or absent.
\<close>

definition file_content_local ::
  "string \<Rightarrow> (string \<Rightarrow> string + string) \<Rightarrow> string option \<Rightarrow> content_payload reply" where
  "file_content_local dirname readFileSync query_path =
     (case query_path of
        None \<Rightarrow> Reply 400 (Error ''Missing path'')
      | Some filePath' \<Rightarrow>
          if filePath' = [] then Reply 400 (Error ''Missing path'')
          else
            let fullPath = path_join dirname filePath'
            in if \<not> startsWith fullPath dirname then Reply 403 (Error ''Access denied'')
               else (case readFileSync fullPath of
                       Inl msg \<Rightarrow> Reply 500 (Error msg)
                     | Inr text \<Rightarrow>
                         Reply 200 (Payload \<lparr>content_text = text, content_path = filePath'\<rparr>)))"

text \<open>
  The containment that the gate is there to decide ("make sure path is within repo"),
  by path components: a location lies within the root when the root's segments are the
  first segments of the location.
\<close>

definition segments :: "string \<Rightarrow> string list" where
  "segments p = filter (\<lambda>s. s \<noteq> []) (split_on (CHR ''/'') p)"

definition lies_within :: "string \<Rightarrow> string \<Rightarrow> bool" where
  "lies_within base p = (take (length (segments base)) (segments p) = segments base)"

section \<open>Tree enumerator\<close>

text \<open>
  A directory tree as \<^verbatim>\<open>readdirSync\<close> and \<^verbatim>\<open>statSync\<close> show it: a file with its size, a
  directory with its entries in listing order, a directory whose listing throws, and an
  entry whose \<^verbatim>\<open>statSync\<close> throws (a dangling link); the last two carry the message of the
  error.
\<close>

datatype node =
    File nat
  | Dir "(string \<times> node) list"
  | Unlistable string
  | Dangling string

record file_entry =
  entry_path :: string
  entry_size :: nat

definition skipDirs :: "string list" where
  "skipDirs = [''node_modules'', ''.git'', ''public'', ''.vscode'', ''.github'']"

definition skipFiles :: "string list" where
  "skipFiles = [''.env'', ''.env.example'', ''package-lock.json'', ''.gitignore'', ''.DS_Store'']"

text \<open>\<^verbatim>\<open>relativePath.replace(/\\/g, "/")\<close>\<close>

definition normalize_separators :: "string \<Rightarrow> string" where
  "normalize_separators p = map (\<lambda>c. if c = CHR 0x5C then CHR ''/'' else c) p"

text \<open>
  \<^verbatim>\<open>fs.statSync(fullPath)\<close>: whether the entry is a directory, and its size; or the message
  of the error thrown. The walk reads the size of files only.
\<close>

datatype stats = Stats (isDirectory: bool) (size_of: nat)

definition statSync :: "node \<Rightarrow> string + stats" where
  "statSync d =
     (case d of
        File n \<Rightarrow> Inr (Stats False n)
      | Dir entries \<Rightarrow> Inr (Stats True 0)
      | Unlistable msg \<Rightarrow> Inr (Stats True 0)
      | Dangling msg \<Rightarrow> Inl msg)"

text \<open>
  \<^verbatim>\<open>getAllFiles(dirPath, arrayOfFiles, baseDir)\<close>. The directory is given by its node and
  by \<open>dirPath\<close>, the names that lead to it from \<^verbatim>\<open>baseDir\<close>: \<^verbatim>\<open>path.join(dirPath, file)\<close> adds
  one name, and \<^verbatim>\<open>path.relative(baseDir, fullPath)\<close> is those names joined by the separator.
  An error thrown by \<^verbatim>\<open>readdirSync\<close> or \<^verbatim>\<open>statSync\<close> ends the walk: the result is \<open>Inl\<close> of its
  message. \<open>forEach_file\<close> is the body of \<^verbatim>\<open>files.forEach\<close>, entry after entry.
\<close>

fun getAllFiles :: "string list \<Rightarrow> node \<Rightarrow> file_entry list \<Rightarrow> string + file_entry list"
  and forEach_file ::
    "string list \<Rightarrow> (string \<times> node) list \<Rightarrow> file_entry list \<Rightarrow> string + file_entry list"
where
  "getAllFiles dirPath (Dir files) arrayOfFiles = forEach_file dirPath files arrayOfFiles"
| "getAllFiles dirPath (File n) arrayOfFiles = Inl ''ENOTDIR: not a directory, scandir''"
| "getAllFiles dirPath (Unlistable msg) arrayOfFiles = Inl msg"
| "getAllFiles dirPath (Dangling msg) arrayOfFiles = Inl msg"
| "forEach_file dirPath [] arrayOfFiles = Inr arrayOfFiles"
| "forEach_file dirPath ((file, d) # rest) arrayOfFiles =
     (case statSync d of
        Inl msg \<Rightarrow> Inl msg
      | Inr st \<Rightarrow>
          if isDirectory st then
            (if file \<notin> set skipDirs then
               (case getAllFiles (dirPath @ [file]) d arrayOfFiles of
                  Inl msg \<Rightarrow> Inl msg
                | Inr arrayOfFiles' \<Rightarrow> forEach_file dirPath rest arrayOfFiles')
             else forEach_file dirPath rest arrayOfFiles)
          else
            (if \<not> startsWith file ''.'' \<and> file \<notin> set skipFiles then
               forEach_file dirPath rest
                 (arrayOfFiles @
                    [\<lparr>entry_path = normalize_separators (join ''/'' (dirPath @ [file])),
                      entry_size = size_of st\<rparr>])
             else forEach_file dirPath rest arrayOfFiles))"

record listing =
  files :: "file_entry list"
  total :: nat

text \<open>\<^verbatim>\<open>app.get("/api/repo-files", ...)\<close> of the local variant, on the tree at \<^verbatim>\<open>__dirname\<close>.\<close>

definition repo_files_local :: "node \<Rightarrow> listing reply" where
  "repo_files_local repoDir =
     (case getAllFiles [] repoDir [] of
        Inl msg \<Rightarrow> Reply 500 (Error msg)
      | Inr all_files \<Rightarrow>
          let filtered = filter (\<lambda>f. entry_size f < 500000) all_files
          in Reply 200 (Payload \<lparr>files = filtered, total = length filtered\<rparr>))"

text \<open>
  Where the files of a tree are: \<open>holds_file n names sz\<close> says that following \<open>names\<close> from
  \<open>n\<close>, through directory entries of those names, ends at a file of size \<open>sz\<close>.
\<close>

fun holds_file :: "node \<Rightarrow> string list \<Rightarrow> nat \<Rightarrow> bool" where
  "holds_file (File n) [] sz = (n = sz)"
| "holds_file (Dir entries) (name # names) sz =
     list_ex (\<lambda>(f, child). f = name \<and> holds_file child names sz) entries"
| "holds_file n names sz = False"

text \<open>
  The names under which the walk emits a file: no directory on the way is in the
  exclusion set, and the file's own name neither starts with a dot nor is in the
  excluded file names.
\<close>

definition listable :: "string list \<Rightarrow> bool" where
  "listable names =
     (names \<noteq> [] \<and> list_all (\<lambda>d. d \<notin> set skipDirs) (butlast names)
      \<and> \<not> startsWith (last names) ''.'' \<and> last names \<notin> set skipFiles)"

text \<open>The entry that the walk pushes for the file at \<open>names\<close> below \<^verbatim>\<open>baseDir\<close>.\<close>

definition entry_for :: "string list \<Rightarrow> nat \<Rightarrow> file_entry" where
  "entry_for names sz =
     \<lparr>entry_path = normalize_separators (join ''/'' names), entry_size = sz\<rparr>"

section \<open>Tree enumerator, remote mode\<close>










section \<open>Health check\<close>

record health_body =
  status_field :: string
  groqConfigured :: bool

text \<open>\<^verbatim>\<open>res.json({ status: "ok", groqConfigured: !!GROQ_API_KEY })\<close>\<close>

definition health :: "string option \<Rightarrow> health_body reply" where
  "health GROQ_API_KEY =
     Reply 200 (Payload \<lparr>status_field = ''ok'', groqConfigured = truthy GROQ_API_KEY\<rparr>)"

section \<open>Scenarios\<close>

text \<open>
  Concrete requests and stand-ins for the completion service, used to run the handlers.
  The first is the end-to-end scenario: \<^verbatim>\<open>main.rs\<close>, \<^verbatim>\<open>fn main() {}\<close>, Rust, and a service
  that answers with the fenced text \<^verbatim>\<open>print("hi")\<close>.
\<close>

definition rust_request :: convert_request where
  "rust_request = \<lparr>filePath = Some ''main.rs'', code = Some ''fn main() {}'',
                     originalLang = Some ''Rust''\<rparr>"

definition hi_lines :: string where
  "hi_lines = [newline] @ ''print('' @ [CHR 0x22] @ ''hi'' @ [CHR 0x22] @ '')'' @ [newline]"

definition fenced_hi :: string where
  "fenced_hi = fence @ ''lua'' @ hi_lines @ fence"

definition fenced_service :: "groq_call \<Rightarrow> completion" where
  "fenced_service call = Completed fenced_hi"

text \<open>A request with neither code nor path.\<close>

definition empty_request :: convert_request where
  "empty_request = \<lparr>filePath = None, code = None, originalLang = None\<rparr>"

text \<open>A request with code and no path.\<close>

definition pathless_request :: convert_request where
  "pathless_request = \<lparr>filePath = None, code = Some ''x = 1'', originalLang = None\<rparr>"

text \<open>
  A service whose answer is a fenced block of which the first line is itself a fence:
  the text \<^verbatim>\<open>print(1)\<close> fenced twice.
\<close>

definition twice_fenced :: string where
  "twice_fenced = fence @ ''lua'' @ [newline] @ fence @ [newline] @ ''print(1)'' @ [newline]
                    @ fence @ [newline] @ fence"

definition twice_fenced_service :: "groq_call \<Rightarrow> completion" where
  "twice_fenced_service call = Completed twice_fenced"

text \<open>
  A service whose answer was cut off: the opening fence and the code, no closing fence.
\<close>

definition cut_off_answer :: string where
  "cut_off_answer = fence @ ''lua'' @ [newline] @ ''print(1)''"

definition cut_off_service :: "groq_call \<Rightarrow> completion" where
  "cut_off_service call = Completed cut_off_answer"

text \<open>A service that rejects the call with status 429 and a nested error message.\<close>

definition rate_limit_error :: caught_error where
  "rate_limit_error =
     \<lparr>err_message = ''Request failed with status code 429'',
      err_response = Some \<lparr>response_status = 429,
                            response_data = Some \<lparr>data_error_message = Some ''Rate limit reached'',
                                                  data_message = Some ''Too Many Requests''\<rparr>\<rparr>\<rparr>"

definition rate_limited_service :: "groq_call \<Rightarrow> completion" where
  "rate_limited_service call = Failed rate_limit_error"

text \<open>
  The service root of the end-to-end scenario, \<^verbatim>\<open>a.txt\<close> (10 bytes), \<^verbatim>\<open>.env\<close> (5 bytes)
  and \<^verbatim>\<open>node_modules/x.js\<close> (5 bytes), and the same with two files at the size ceiling.
\<close>

definition scenario_root :: node where
  "scenario_root =
     Dir [(''a.txt'', File 10), (''.env'', File 5), (''node_modules'', Dir [(''x.js'', File 5)])]"


text \<open>
  A disk on which the service root is \<^verbatim>\<open>/srv/app\<close>, with its \<^verbatim>\<open>.env\<close>, and beside it a
  directory \<^verbatim>\<open>/srv/app-secret\<close> that is not part of the service.
\<close>

definition scenario_disk :: "string \<Rightarrow> string + string" where
  "scenario_disk p =
     (if p = ''/srv/app/.env'' then Inr ''GROQ_API_KEY=gsk_first''
      else if p = ''/srv/app/node_modules/x.js'' then Inr ''x = 1''
      else if p = ''/srv/app-secret/key.pem'' then Inr ''PRIVATE KEY''
      else Inl ''ENOENT: no such file or directory'')"



section \<open>Properties of the health check\<close>

text \<open>
  C8. The health endpoint always answers 200 with status "ok" and a boolean that is true
  exactly when the credential is set and non-empty. The reply depends on the credential
  only through that boolean: any two non-empty credentials give the same reply.
\<close>

theorem health_reveals_presence_only:
  "health k =
     Reply 200 (Payload \<lparr>status_field = ''ok'',
                         groqConfigured = (k \<noteq> None \<and> k \<noteq> Some [])\<rparr>)
   \<and> (\<forall>c1 c2. c1 \<noteq> [] \<and> c2 \<noteq> [] \<longrightarrow> health (Some c1) = health (Some c2))"
  by (cases k) (simp_all add: health_def truthy_def)

theorem health_reveals_presence_only_witness:
  "''gsk_first'' \<noteq> [] \<and> ''gsk_second'' \<noteq> []
   \<and> health (Some ''gsk_first'') = health (Some ''gsk_second'')
   \<and> health (Some ''gsk_first'') =
       Reply 200 (Payload \<lparr>status_field = ''ok'', groqConfigured = True\<rparr>)"
proof -
  note h = health_reveals_presence_only [of "Some ''gsk_first''"]
  from h have same: "health (Some ''gsk_first'') = health (Some ''gsk_second'')"
    by blast
  from h have "health (Some ''gsk_first'') =
      Reply 200 (Payload \<lparr>status_field = ''ok'', groqConfigured = True\<rparr>)"
    by simp
  with same show ?thesis by simp
qed

section \<open>Properties of the conversion proxy\<close>

text \<open>
  C5. For every convert request made while the credential is not configured (absent or
  empty), the reply is the 500 error that names the missing credential, and the handler
  did nothing else: no prompt was built and no call to the completion service was made.
\<close>

theorem convert_unconfigured_makes_no_call:
  "\<not> truthy key \<Longrightarrow>
   convert key groq req =
     (Reply 500 (Error ''GROQ_API_KEY is not set in environment variables''), [])"
  by (simp add: convert_def)

theorem convert_unconfigured_makes_no_call_witness:
  "\<not> truthy None
   \<and> convert None fenced_service rust_request =
       (Reply 500 (Error ''GROQ_API_KEY is not set in environment variables''), [])"
  using convert_unconfigured_makes_no_call [of None fenced_service rust_request]
  by (simp add: truthy_def)

text \<open>
  C3, as stated, fails: a request without code, made while the credential is not
  configured, is answered 500 and not 400, because the handler looks at the credential
  before it looks at the code.
\<close>

theorem empty_code_without_credential_is_500:
  "code empty_request = None
   \<and> status (fst (convert None fenced_service empty_request)) = 500
   \<and> status (fst (convert None fenced_service empty_request)) \<noteq> 400"
  by (simp add: convert_def truthy_def empty_request_def)

text \<open>
  C3, amended. For every convert request whose code is empty or absent, made while the
  credential is configured, the reply is the 400 error "No code provided", and no prompt
  was built and no call was made.
\<close>

theorem convert_empty_code_rejected:
  "truthy key \<Longrightarrow> code req = None \<or> code req = Some [] \<Longrightarrow>
   convert key groq req = (Reply 400 (Error ''No code provided''), [])"
  by (auto simp add: convert_def truthy_def)

theorem convert_empty_code_rejected_witness:
  "truthy (Some ''gsk_first'')
   \<and> (code empty_request = None \<or> code empty_request = Some [])
   \<and> convert (Some ''gsk_first'') fenced_service empty_request
       = (Reply 400 (Error ''No code provided''), [])"
proof -
  have k: "truthy (Some ''gsk_first'')" by (simp add: truthy_def)
  have c: "code empty_request = None \<or> code empty_request = Some []"
    by (simp add: empty_request_def)
  from convert_empty_code_rejected [OF k c] k c show ?thesis by simp
qed

text \<open>
  C7. When the call to the completion service fails, the status of the reply is the
  upstream status when there is an upstream response (500 when there is none, or when its
  status is 0), and the error message is the first that is present and non-empty of: the
  nested error message of the upstream body, the generic message of the upstream body,
  the message of the error itself.
\<close>

theorem convert_failure_mapping:
  assumes "truthy key" and "truthy (code req)"
    and "groq (make_call (interpolate key) (build_prompt req)) = Failed err"
  shows "status (fst (convert key groq req)) =
           (case err_response err of
              None \<Rightarrow> 500
            | Some r \<Rightarrow> if response_status r = 0 then 500 else response_status r)
         \<and> (\<forall>m. nested_error_message err = Some m \<and> m \<noteq> [] \<longrightarrow>
                body (fst (convert key groq req)) = Error m)
         \<and> (\<forall>m. \<not> truthy (nested_error_message err)
                \<and> generic_message err = Some m \<and> m \<noteq> [] \<longrightarrow>
                body (fst (convert key groq req)) = Error m)
         \<and> (\<not> truthy (nested_error_message err) \<and> \<not> truthy (generic_message err) \<longrightarrow>
                body (fst (convert key groq req)) = Error (err_message err))"
  using assms
  by (auto simp add: convert_def Let_def convert_catch_def failure_status_def
        failure_message_def or_else_def truthy_def split: option.splits)

theorem convert_failure_mapping_witness:
  "truthy (Some ''gsk_first'') \<and> truthy (code rust_request)
   \<and> rate_limited_service (make_call (interpolate (Some ''gsk_first'')) (build_prompt rust_request))
       = Failed rate_limit_error
   \<and> nested_error_message rate_limit_error = Some ''Rate limit reached''
   \<and> status (fst (convert (Some ''gsk_first'') rate_limited_service rust_request)) = 429
   \<and> body (fst (convert (Some ''gsk_first'') rate_limited_service rust_request))
       = Error ''Rate limit reached''"
proof -
  have k: "truthy (Some ''gsk_first'')" by (simp add: truthy_def)
  have c: "truthy (code rust_request)" by (simp add: truthy_def rust_request_def)
  have f: "rate_limited_service
             (make_call (interpolate (Some ''gsk_first'')) (build_prompt rust_request))
           = Failed rate_limit_error"
    by (simp add: rate_limited_service_def)
  have n: "nested_error_message rate_limit_error = Some ''Rate limit reached''"
    by (simp add: nested_error_message_def rate_limit_error_def)
  have r: "err_response rate_limit_error \<noteq> None
           \<and> response_status (the (err_response rate_limit_error)) = 429"
    by (simp add: rate_limit_error_def)
  note m = convert_failure_mapping
             [of "Some ''gsk_first''" rust_request rate_limited_service rate_limit_error, OF k c f]
  from m r have "status (fst (convert (Some ''gsk_first'') rate_limited_service rust_request)) = 429"
    by (auto split: option.splits)
  moreover from m n
  have "body (fst (convert (Some ''gsk_first'') rate_limited_service rust_request))
          = Error ''Rate limit reached''"
    by simp
  ultimately show ?thesis using k c f n by simp
qed

text \<open>
  C10. The convert handler never validates \<^verbatim>\<open>filePath\<close>. For every request with non-empty
  code and a configured credential, whatever the path is (absent and empty included),
  the prompt is built and the call is made; and when the service completes, the reply is
  200 with the request's \<^verbatim>\<open>filePath\<close> as it came, absent when it was absent.
\<close>

theorem convert_filePath_unchecked:
  assumes "truthy key" and "truthy (code req)"
  shows "snd (convert key groq req) =
           [PromptBuilt (build_prompt req),
            Posted (make_call (interpolate key) (build_prompt req))]
         \<and> (\<forall>c. groq (make_call (interpolate key) (build_prompt req)) = Completed c \<longrightarrow>
                fst (convert key groq req) =
                  Reply 200 (Payload \<lparr>convertedCode = strip_code_fences (trim c),
                                      payload_filePath = filePath req\<rparr>))"
  using assms
  by (auto simp add: convert_def Let_def split: completion.splits)

theorem convert_filePath_unchecked_witness:
  "truthy (Some ''gsk_first'') \<and> truthy (code pathless_request)
   \<and> filePath pathless_request = None
   \<and> fenced_service
        (make_call (interpolate (Some ''gsk_first'')) (build_prompt pathless_request))
       = Completed fenced_hi
   \<and> snd (convert (Some ''gsk_first'') fenced_service pathless_request) =
       [PromptBuilt (build_prompt pathless_request),
        Posted (make_call (interpolate (Some ''gsk_first'')) (build_prompt pathless_request))]
   \<and> fst (convert (Some ''gsk_first'') fenced_service pathless_request) =
       Reply 200 (Payload \<lparr>convertedCode = strip_code_fences (trim fenced_hi),
                           payload_filePath = None\<rparr>)"
proof -
  have k: "truthy (Some ''gsk_first'')" by (simp add: truthy_def)
  have c: "truthy (code pathless_request)" by (simp add: truthy_def pathless_request_def)
  have p: "filePath pathless_request = None" by (simp add: pathless_request_def)
  have s: "fenced_service
             (make_call (interpolate (Some ''gsk_first'')) (build_prompt pathless_request))
           = Completed fenced_hi"
    by (simp add: fenced_service_def)
  from convert_filePath_unchecked
         [of "Some ''gsk_first''" pathless_request fenced_service, OF k c] s p k c
  show ?thesis by simp
qed

section \<open>Properties of fence stripping\<close>

lemma canonicalize_backquote: "canonicalize c = CHR 0x60 \<longleftrightarrow> c = CHR 0x60"
proof
  assume a: "canonicalize c = CHR 0x60"
  define n where "n = (of_char c :: nat)"
  show "c = CHR 0x60"
  proof (cases "97 \<le> n \<and> n \<le> 122")
    case True
    with a have "char_of (n - 32) = CHR 0x60"
      by (simp add: canonicalize_def Let_def n_def)
    then have "(of_char (char_of (n - 32) :: char) :: nat) = of_char (CHR 0x60)"
      by (rule arg_cong)
    then have "(n - 32) mod 256 = 96" by simp
    moreover from True have "n - 32 < 256" by arith
    ultimately have "n - 32 = 96" by (simp only: mod_less)
    with True have False by arith
    then show ?thesis ..
  next
    case False
    then have "canonicalize c = c" by (auto simp add: canonicalize_def Let_def n_def)
    with a show ?thesis by simp
  qed
next
  assume "c = CHR 0x60"
  then show "canonicalize c = CHR 0x60" by (simp add: canonicalize_def)
qed

lemma match_literal_ci_iff:
  "match_literal_ci p s = Some r \<longleftrightarrow>
     (\<exists>t. s = t @ r \<and> map canonicalize t = map canonicalize p)"
proof (induction p s rule: match_literal_ci.induct)
  case (1 s)
  then show ?case by simp
next
  case (2 p ps)
  then show ?case by simp
next
  case (3 p ps c cs)
  show ?case
  proof
    assume "match_literal_ci (p # ps) (c # cs) = Some r"
    then have c: "canonicalize c = canonicalize p" and m: "match_literal_ci ps cs = Some r"
      by (auto split: if_splits)
    from 3 [OF c] m obtain t where "cs = t @ r" "map canonicalize t = map canonicalize ps"
      by blast
    with c have "c # cs = (c # t) @ r \<and> map canonicalize (c # t) = map canonicalize (p # ps)"
      by simp
    then show "\<exists>t. c # cs = t @ r \<and> map canonicalize t = map canonicalize (p # ps)" ..
  next
    assume "\<exists>t. c # cs = t @ r \<and> map canonicalize t = map canonicalize (p # ps)"
    then obtain t where t: "c # cs = t @ r" "map canonicalize t = map canonicalize (p # ps)"
      by blast
    from t(2) obtain x xs where x: "t = x # xs" "canonicalize x = canonicalize p"
      "map canonicalize xs = map canonicalize ps"
      by (cases t) auto
    with t(1) have "c = x" "cs = xs @ r" by auto
    with x 3 show "match_literal_ci (p # ps) (c # cs) = Some r" by auto
  qed
qed

lemma canonical_fence: "map canonicalize t = map canonicalize fence \<longleftrightarrow> t = fence"
proof -
  have q: "canonicalize (CHR 0x60) = CHR 0x60" by (simp add: canonicalize_def)
  show ?thesis
  proof
    assume a: "map canonicalize t = map canonicalize fence"
    then have "length t = 3" by (metis length_map fence_def length_Cons list.size(3) numeral_3_eq_3)
    then obtain a1 a2 a3 where t: "t = [a1, a2, a3]"
      by (metis (no_types) length_0_conv length_Suc_conv numeral_3_eq_3)
    with a q have "canonicalize a1 = CHR 0x60" "canonicalize a2 = CHR 0x60"
      "canonicalize a3 = CHR 0x60"
      by (simp_all add: fence_def)
    then have "a1 = CHR 0x60" "a2 = CHR 0x60" "a3 = CHR 0x60"
      by (simp_all only: canonicalize_backquote)
    with t show "t = fence" by (simp add: fence_def)
  next
    assume "t = fence"
    then show "map canonicalize t = map canonicalize fence" by simp
  qed
qed

lemma match_fence: "match_literal_ci fence s = Some r \<longleftrightarrow> s = fence @ r"
  by (auto simp add: match_literal_ci_iff canonical_fence)

lemma match_append_subject:
  "match_literal_ci p t = Some r \<Longrightarrow> match_literal_ci p (t @ s) = Some (r @ s)"
  by (induction p t rule: match_literal_ci.induct) (auto split: if_splits)

lemma match_append_pattern:
  "match_literal_ci (p @ q) s =
     (case match_literal_ci p s of None \<Rightarrow> None | Some r \<Rightarrow> match_literal_ci q r)"
  by (induction p s rule: match_literal_ci.induct) auto

lemma match_none_before_fence:
  "match_literal_ci p b = None \<Longrightarrow> \<forall>c \<in> set p. canonicalize c \<noteq> CHR 0x60 \<Longrightarrow>
   match_literal_ci p (b @ fence) = None"
proof (induction p b rule: match_literal_ci.induct)
  case (1 s)
  then show ?case by simp
next
  case (2 p ps)
  then show ?case 
    using canonicalize_backquote [of "CHR 0x60"] by (auto simp add: fence_def)
next
  case (3 p ps c cs)
  then show ?case by (auto split: if_splits)
qed

lemma optional_newline_before_fence:
  "optional_newline (b @ fence) = optional_newline b @ fence"
  by (cases b) (auto simp add: optional_newline_def fence_def newline_def)

lemma endsWith_iff: "endsWith s p \<longleftrightarrow> (\<exists>u. s = u @ p)"
proof
  assume "endsWith s p"
  then have "s = take (length s - length p) s @ p"
    by (metis append_take_drop_id endsWith_def)
  then show "\<exists>u. s = u @ p" ..
next
  assume "\<exists>u. s = u @ p"
  then show "endsWith s p" by (auto simp add: endsWith_def)
qed

lemma strip_trailing_after:
  "strip_trailing_fence (b @ fence) = (if b \<noteq> [] \<and> last b = newline then butlast b else b)"
proof (cases "b \<noteq> [] \<and> last b = newline")
  case True
  then have b: "b = butlast b @ [newline]" by (metis append_butlast_last_id)
  then have "b @ fence = butlast b @ newline # fence" by (metis append.assoc append_Cons append_Nil)
  then have e: "endsWith (b @ fence) (newline # fence)" unfolding endsWith_iff by blast
  have "length fence = 3" by (simp add: fence_def)
  with True have "take (length (b @ fence) - 4) (b @ fence) = butlast b"
    by (simp add: butlast_conv_take)
  with e True show ?thesis by (simp add: strip_trailing_fence_def)
next
  case False
  have ne: "\<not> endsWith (b @ fence) (newline # fence)"
  proof
    assume "endsWith (b @ fence) (newline # fence)"
    then obtain u where "b @ fence = u @ newline # fence" unfolding endsWith_iff by blast
    then have "b @ fence = (u @ [newline]) @ fence" by simp
    then have "b = u @ [newline]" by (simp only: append_same_eq)
    with False show False by simp
  qed
  have e: "endsWith (b @ fence) fence" unfolding endsWith_iff by blast
  have "length fence = 3" by (simp add: fence_def)
  then have "take (length (b @ fence) - 3) (b @ fence) = b" by simp
  with ne e False show ?thesis by (auto simp add: strip_trailing_fence_def)
qed

lemma trim_Cons_space: "js_space c \<Longrightarrow> trim (c # s) = trim s"
  by (simp add: trim_def)

lemma trim_snoc_space: "js_space c \<Longrightarrow> trim (s @ [c]) = trim s"
proof -
  assume c: "js_space c"
  show ?thesis
  proof (cases "\<forall>x \<in> set s. js_space x")
    case True
    then have a: "dropWhile js_space s = []" by simp
    from True c have b: "dropWhile js_space (s @ [c]) = []" by simp
    show ?thesis unfolding trim_def a b by (rule refl)
  next
    case False
    then have "dropWhile js_space (s @ [c]) = dropWhile js_space s @ [c]"
      by (auto simp add: dropWhile_append)
    with c show ?thesis by (simp add: trim_def)
  qed
qed

lemma js_space_newline: "js_space newline"
  by (simp add: js_space_def newline_def)

lemma trim_optional_newline: "trim (optional_newline b) = trim b"
proof (cases b)
  case Nil
  then show ?thesis by (simp add: optional_newline_def)
next
  case (Cons c cs)
  show ?thesis
  proof (cases "c = newline")
    case True
    with Cons show ?thesis
      by (simp add: optional_newline_def trim_Cons_space js_space_newline)
  next
    case False
    with Cons show ?thesis by (simp add: optional_newline_def)
  qed
qed

lemma trim_drop_last_newline:
  "trim (if b \<noteq> [] \<and> last b = newline then butlast b else b) = trim b"
proof (cases "b \<noteq> [] \<and> last b = newline")
  case True
  then have "b = butlast b @ [newline]" by (metis append_butlast_last_id)
  then have "trim b = trim (butlast b)"
    by (metis trim_snoc_space js_space_newline)
  with True show ?thesis by simp
next
  case False
  then show ?thesis by auto
qed

lemma trim_fixed:
  "s = [] \<or> (\<not> js_space (hd s) \<and> \<not> js_space (last s)) \<Longrightarrow> trim s = s"
proof (cases s)
  case Nil
  then show ?thesis by (simp add: trim_def)
next
  case (Cons a list)
  assume "s = [] \<or> (\<not> js_space (hd s) \<and> \<not> js_space (last s))"
  with Cons have h: "\<not> js_space a" and l: "\<not> js_space (last s)" by auto
  from h Cons have 1: "dropWhile js_space s = s" by simp
  have "hd (rev s) = last s" by (simp add: hd_rev)
  with l have "\<not> js_space (hd (rev s))" by simp
  then have 2: "dropWhile js_space (rev s) = rev s" using Cons
    by (metis dropWhile_eq_self_iff)
  show ?thesis by (simp add: trim_def 1 2)
qed

lemma trim_trim: "trim (trim s) = trim s"
proof (rule trim_fixed)
  show "trim s = [] \<or> (\<not> js_space (hd (trim s)) \<and> \<not> js_space (last (trim s)))"
  proof (cases "trim s = []")
    case True then show ?thesis by simp
  next
    case False
    let ?d = "dropWhile js_space s"
    let ?r = "dropWhile js_space (rev ?d)"
    from False have r: "?r \<noteq> []" by (simp add: trim_def)
    then have hr: "\<not> js_space (hd ?r)" by (rule hd_dropWhile)
    from r have d: "?d \<noteq> []" by (metis dropWhile.simps(1) rev_is_Nil_conv)
    then have hd: "\<not> js_space (hd ?d)" by (rule hd_dropWhile)
    have "last (trim s) = hd ?r" using r by (simp add: trim_def last_rev)
    moreover have "hd (trim s) = last ?r" using r by (simp add: trim_def hd_rev)
    moreover have "last ?r = last (rev ?d)"
      by (metis d dropWhile_last hd last_in_set last_rev rev_is_Nil_conv)
    moreover have "last (rev ?d) = hd ?d" using d by (simp add: last_rev)
    ultimately show ?thesis using hr hd by simp
  qed
qed

lemma startsWith_iff: "startsWith s p \<longleftrightarrow> (\<exists>u. s = p @ u)"
proof
  assume "startsWith s p"
  then have "s = p @ drop (length p) s"
    by (metis append_take_drop_id startsWith_def)
  then show "\<exists>u. s = p @ u" ..
next
  assume "\<exists>u. s = p @ u"
  then show "startsWith s p" by (auto simp add: startsWith_def)
qed

lemma match_fence_None: "match_literal_ci fence s = None \<longleftrightarrow> \<not> startsWith s fence"
proof -
  have "match_literal_ci fence s \<noteq> None \<longleftrightarrow> (\<exists>r. s = fence @ r)"
    using match_fence by (metis not_Some_eq)
  then show ?thesis unfolding startsWith_iff by blast
qed

lemma strip_lua_fence_tagged:
  assumes "match_literal_ci ''lua'' tag = Some []"
  shows "strip_lua_fence (fence @ tag @ rest) = optional_newline rest"
proof -
  have "match_literal_ci fence (fence @ tag @ rest) = Some (tag @ rest)"
    by (simp add: match_fence)
  moreover from assms have "match_literal_ci ''lua'' (tag @ rest) = Some rest"
    using match_append_subject by fastforce
  ultimately have "match_literal_ci (fence @ ''lua'') (fence @ tag @ rest) = Some rest"
    by (simp add: match_append_pattern)
  then show ?thesis by (simp add: strip_lua_fence_def)
qed

lemma lua_letters_not_backquote: "\<forall>c \<in> set ''lua''. canonicalize c \<noteq> CHR 0x60"
  by (simp add: canonicalize_backquote)

lemma strip_lua_fence_untagged:
  assumes "match_literal_ci ''lua'' inside = None"
  shows "strip_lua_fence (fence @ inside @ fence) = fence @ inside @ fence"
proof -
  have "match_literal_ci fence (fence @ inside @ fence) = Some (inside @ fence)"
    by (simp add: match_fence)
  moreover from assms have "match_literal_ci ''lua'' (inside @ fence) = None"
    using lua_letters_not_backquote by (rule match_none_before_fence)
  ultimately have "match_literal_ci (fence @ ''lua'') (fence @ inside @ fence) = None"
    by (simp add: match_append_pattern)
  then show ?thesis by (simp add: strip_lua_fence_def)
qed

lemma strip_plain_fence_leading: "strip_plain_fence (fence @ rest) = optional_newline rest"
proof -
  have "match_literal_ci fence (fence @ rest) = Some rest" by (simp add: match_fence)
  then show ?thesis by (simp add: strip_plain_fence_def)
qed

lemma strip_plain_fence_absent: "\<not> startsWith s fence \<Longrightarrow> strip_plain_fence s = s"
proof -
  assume "\<not> startsWith s fence"
  then have "match_literal_ci fence s = None" by (simp add: match_fence_None)
  then show ?thesis by (simp add: strip_plain_fence_def)
qed

lemma strip_lua_fence_absent: "\<not> startsWith s fence \<Longrightarrow> strip_lua_fence s = s"
proof -
  assume "\<not> startsWith s fence"
  then have "match_literal_ci fence s = None" by (simp add: match_fence_None)
  then have "match_literal_ci (fence @ ''lua'') s = None" by (simp add: match_append_pattern)
  then show ?thesis by (simp add: strip_lua_fence_def)
qed

lemma strip_trailing_fence_absent: "\<not> endsWith s fence \<Longrightarrow> strip_trailing_fence s = s"
proof -
  assume a: "\<not> endsWith s fence"
  have "\<not> endsWith s (newline # fence)"
  proof
    assume "endsWith s (newline # fence)"
    then obtain u where "s = u @ newline # fence" unfolding endsWith_iff by blast
    then have "s = (u @ [newline]) @ fence" by simp
    then have "endsWith s fence" unfolding endsWith_iff by blast
    with a show False by simp
  qed
  with a show ?thesis by (simp add: strip_trailing_fence_def)
qed

text \<open>What is left once the opening marker is gone: content and closing fence.\<close>

lemma closing_fence_stripped:
  "trim (strip_trailing_fence (optional_newline inside @ fence)) = trim inside"
  by (simp only: strip_trailing_after trim_drop_last_newline trim_optional_newline)

lemma few_backquotes:
  assumes "b @ fence = fence @ r" and "\<not> startsWith b fence"
  shows "r = b \<and> length b < 3 \<and> optional_newline b = b"
proof -
  have l: "length fence = 3" by (simp add: fence_def)
  have short: "length b < 3"
  proof (rule ccontr)
    assume "\<not> length b < 3"
    then have "take 3 (b @ fence) = take 3 b" by simp
    moreover have "take 3 (fence @ r) = fence" using l by simp
    ultimately have "take (length fence) b = fence" using assms(1) l by simp
    with assms(2) show False by (simp add: startsWith_def)
  qed
  then consider "b = []" | x where "b = [x]" | x y where "b = [x, y]"
    by (cases b; cases "tl b"; cases "tl (tl b)") auto
  then show ?thesis
  proof cases
    case 1
    with assms(1) show ?thesis by (simp add: optional_newline_def)
  next
    case 2
    with assms(1) show ?thesis
      by (auto simp add: fence_def optional_newline_def newline_def)
  next
    case 3
    with assms(1) show ?thesis
      by (auto simp add: fence_def optional_newline_def newline_def)
  qed
qed

lemma tagged_pair_stripped:
  assumes tag: "match_literal_ci ''lua'' tag = Some []"
    and inner: "\<not> startsWith (optional_newline inside) fence"
  shows "strip_code_fences (fence @ tag @ inside @ fence) = trim inside"
proof -
  let ?b = "optional_newline inside"
  have 1: "strip_lua_fence (fence @ tag @ inside @ fence) = ?b @ fence"
    using strip_lua_fence_tagged [OF tag] by (simp add: optional_newline_before_fence)
  show ?thesis
  proof (cases "startsWith (?b @ fence) fence")
    case False
    then have "strip_plain_fence (?b @ fence) = ?b @ fence"
      by (rule strip_plain_fence_absent)
    with 1 show ?thesis by (simp add: strip_code_fences_def closing_fence_stripped)
  next
    case True
    then obtain r where r: "?b @ fence = fence @ r" unfolding startsWith_iff by blast
    from few_backquotes [OF r inner] have f: "r = ?b" "length ?b < 3" "optional_newline ?b = ?b"
      by simp_all
    from r f have 2: "strip_plain_fence (?b @ fence) = ?b"
      by (simp add: strip_plain_fence_leading)
    have "\<not> endsWith ?b fence" using f(2) by (simp add: endsWith_def fence_def)
    then have 3: "strip_trailing_fence ?b = ?b" by (rule strip_trailing_fence_absent)
    from 1 2 3 show ?thesis by (simp add: strip_code_fences_def trim_optional_newline)
  qed
qed

lemma untagged_pair_stripped:
  assumes "match_literal_ci ''lua'' inside = None"
  shows "strip_code_fences (fence @ inside @ fence) = trim inside"
proof -
  have "strip_lua_fence (fence @ inside @ fence) = fence @ inside @ fence"
    using assms by (rule strip_lua_fence_untagged)
  moreover have "strip_plain_fence (fence @ inside @ fence) = optional_newline inside @ fence"
    by (simp add: strip_plain_fence_leading optional_newline_before_fence)
  ultimately show ?thesis by (simp add: strip_code_fences_def closing_fence_stripped)
qed

lemma backquote_not_space: "\<not> js_space (CHR 0x60)"
  by (simp add: js_space_def)

lemma trim_fenced: "trim (fence @ s @ fence) = fence @ s @ fence"
proof (rule trim_fixed)
  have "hd (fence @ s @ fence) = CHR 0x60" by (simp add: fence_def)
  moreover have "last (fence @ s @ fence) = CHR 0x60" by (simp add: fence_def)
  ultimately show "fence @ s @ fence = [] \<or>
      (\<not> js_space (hd (fence @ s @ fence)) \<and> \<not> js_space (last (fence @ s @ fence)))"
    using backquote_not_space by simp
qed

text \<open>
  C2, as stated, fails. An answer that was cut off has an opening fence and no closing
  one, so no fence encloses it, yet the opening fence is removed and the answer does not
  come back unchanged: each of the three replacements acts on its own. And of an answer
  whose fenced content begins with a fence of its own, the first replacement removes the
  tagged opening fence and the second then removes the fence that opens the content: of
  \<^verbatim>\<open>print(1)\<close> fenced twice what is returned is \<^verbatim>\<open>print(1)\<close>, a line feed and a fence, and not
  the content in its own fences.
\<close>

theorem lone_or_doubled_fence_counterexample:
  "\<not> endsWith (trim cut_off_answer) fence
   \<and> fst (convert (Some ''gsk_first'') cut_off_service rust_request) =
       Reply 200 (Payload \<lparr>convertedCode = ''print(1)'', payload_filePath = Some ''main.rs''\<rparr>)
   \<and> ''print(1)'' \<noteq> trim cut_off_answer
   \<and> fst (convert (Some ''gsk_first'') twice_fenced_service rust_request) =
       Reply 200 (Payload \<lparr>convertedCode = ''print(1)'' @ [newline] @ fence,
                           payload_filePath = Some ''main.rs''\<rparr>)
   \<and> ''print(1)'' @ [newline] @ fence \<noteq> fence @ [newline] @ ''print(1)'' @ [newline] @ fence"
  by code_simp

text \<open>
  C2, amended. For a trimmed answer that is an opening fence, some content and a closing
  fence, where the opening fence either carries the tag \<^verbatim>\<open>lua\<close> in any letter case and the
  content after its optional line feed does not begin with a fence, or carries no tag
  (the content then not beginning with those three letters), the returned code is the
  content with surrounding white space trimmed: one fence pair is removed and every
  fence inside the content stays. For an answer that, trimmed, neither begins nor ends
  with a fence, the returned code is the trimmed answer.
\<close>

theorem fence_stripping:
  "((match_literal_ci ''lua'' tag = Some [] \<and> \<not> startsWith (optional_newline inside) fence)
      \<or> (tag = [] \<and> match_literal_ci ''lua'' inside = None)
     \<longrightarrow> strip_code_fences (trim (fence @ tag @ inside @ fence)) = trim inside)
   \<and> (\<not> startsWith (trim c) fence \<and> \<not> endsWith (trim c) fence
     \<longrightarrow> strip_code_fences (trim c) = trim c)"
proof (intro conjI impI)
  assume "(match_literal_ci ''lua'' tag = Some [] \<and> \<not> startsWith (optional_newline inside) fence)
      \<or> (tag = [] \<and> match_literal_ci ''lua'' inside = None)"
  then have "strip_code_fences (fence @ tag @ inside @ fence) = trim inside"
    using tagged_pair_stripped untagged_pair_stripped by fastforce
  moreover have "trim (fence @ tag @ inside @ fence) = fence @ tag @ inside @ fence"
    using trim_fenced [of "tag @ inside"] by simp
  ultimately show "strip_code_fences (trim (fence @ tag @ inside @ fence)) = trim inside"
    by simp
next
  assume a: "\<not> startsWith (trim c) fence \<and> \<not> endsWith (trim c) fence"
  then show "strip_code_fences (trim c) = trim c"
    by (simp add: strip_code_fences_def strip_lua_fence_absent strip_plain_fence_absent
          strip_trailing_fence_absent trim_trim)
qed

theorem fence_stripping_witness:
  "match_literal_ci ''lua'' ''lua'' = Some []
   \<and> \<not> startsWith (optional_newline hi_lines) fence
   \<and> strip_code_fences (trim (fence @ ''lua'' @ hi_lines @ fence)) = trim hi_lines
   \<and> trim hi_lines = ''print('' @ [CHR 0x22] @ ''hi'' @ [CHR 0x22] @ '')''
   \<and> \<not> startsWith (trim '' x = 1 '') fence
   \<and> \<not> endsWith (trim '' x = 1 '') fence
   \<and> strip_code_fences (trim '' x = 1 '') = trim '' x = 1 ''
   \<and> trim '' x = 1 '' = ''x = 1''"
proof -
  have t: "match_literal_ci ''lua'' ''lua'' = Some []" by code_simp
  have i: "\<not> startsWith (optional_newline hi_lines) fence" by code_simp
  have s: "\<not> startsWith (trim '' x = 1 '') fence" by code_simp
  have e: "\<not> endsWith (trim '' x = 1 '') fence" by code_simp
  have v: "trim hi_lines = ''print('' @ [CHR 0x22] @ ''hi'' @ [CHR 0x22] @ '')''"
    by code_simp
  have w: "trim '' x = 1 '' = ''x = 1''" by code_simp
  note f = fence_stripping [of "''lua''" hi_lines "'' x = 1 ''"]
  from f t i have "strip_code_fences (trim (fence @ ''lua'' @ hi_lines @ fence)) = trim hi_lines"
    by blast
  moreover from f s e have "strip_code_fences (trim '' x = 1 '') = trim '' x = 1 ''"
    by blast
  ultimately show ?thesis using t i s e v w by simp
qed

section \<open>Properties of the content fetcher\<close>

text \<open>What the gate does establish: a served path has \<^verbatim>\<open>__dirname\<close> as a prefix of its text.\<close>

lemma served_path_has_dirname_prefix:
  "file_content_local dirname readFileSync q = Reply 200 (Payload p) \<Longrightarrow>
   startsWith (path_join dirname (content_path p)) dirname"
  by (auto simp add: file_content_local_def Let_def
        split: option.splits if_splits sum.splits)

text \<open>The path of the specification's example is refused from the root \<^verbatim>\<open>/srv/app\<close>.\<close>

lemma etc_passwd_is_refused:
  "file_content_local ''/srv/app'' scenario_disk (Some ''../../etc/passwd'') =
     Reply 403 (Error ''Access denied'')"
  by code_simp

text \<open>
  C1 at a path that leaves the root for a directory beside it whose name begins with the
  root's name. From the root \<^verbatim>\<open>/srv/app\<close> the path \<^verbatim>\<open>../app-secret/key.pem\<close> resolves to
  \<^verbatim>\<open>/srv/app-secret/key.pem\<close>, which does not lie within the root; yet the text of the
  root is a prefix of it, the gate lets it through, and the reply is 200 with the file's
  content instead of 403.
\<close>

theorem sibling_directory_passes_gate:
  "path_join ''/srv/app'' ''../app-secret/key.pem'' = ''/srv/app-secret/key.pem''
   \<and> \<not> lies_within ''/srv/app'' ''/srv/app-secret/key.pem''
   \<and> file_content_local ''/srv/app'' scenario_disk (Some ''../app-secret/key.pem'') =
       Reply 200 (Payload \<lparr>content_text = ''PRIVATE KEY'',
                           content_path = ''../app-secret/key.pem''\<rparr>)"
  by code_simp

text \<open>
  C9. In local mode the content fetcher applies none of the enumerator's eligibility
  rules. For every non-empty requested path that passes the containment gate and whose
  file can be read, the reply is 200 with the file's content and the path as requested:
  neither the names on the path nor the size of the file are looked at.
\<close>

theorem file_content_ignores_eligibility:
  assumes "filePath' \<noteq> []"
    and "startsWith (path_join dirname filePath') dirname"
    and "readFileSync (path_join dirname filePath') = Inr text"
  shows "file_content_local dirname readFileSync (Some filePath') =
           Reply 200 (Payload \<lparr>content_text = text, content_path = filePath'\<rparr>)"
  using assms by (simp add: file_content_local_def Let_def)

theorem file_content_ignores_eligibility_witness:
  "''node_modules/x.js'' \<noteq> []
   \<and> startsWith (path_join ''/srv/app'' ''node_modules/x.js'') ''/srv/app''
   \<and> scenario_disk (path_join ''/srv/app'' ''node_modules/x.js'') = Inr ''x = 1''
   \<and> file_content_local ''/srv/app'' scenario_disk (Some ''node_modules/x.js'') =
       Reply 200 (Payload \<lparr>content_text = ''x = 1'', content_path = ''node_modules/x.js''\<rparr>)"
proof -
  have p: "path_join ''/srv/app'' ''node_modules/x.js'' = ''/srv/app/node_modules/x.js''"
    by code_simp
  have n: "''node_modules/x.js'' \<noteq> []" by simp
  have g: "startsWith (path_join ''/srv/app'' ''node_modules/x.js'') ''/srv/app''"
    unfolding p by (simp add: startsWith_def)
  have r: "scenario_disk (path_join ''/srv/app'' ''node_modules/x.js'') = Inr ''x = 1''"
    unfolding p by (simp add: scenario_disk_def)
  from file_content_ignores_eligibility
         [of "''node_modules/x.js''" "''/srv/app''" scenario_disk "''x = 1''", OF n g r] n g r
  show ?thesis by simp
qed

text \<open>The same for the hidden file \<^verbatim>\<open>.env\<close>, which the enumerator never lists.\<close>

lemma hidden_file_is_served:
  "file_content_local ''/srv/app'' scenario_disk (Some ''.env'') =
     Reply 200 (Payload \<lparr>content_text = ''GROQ_API_KEY=gsk_first'', content_path = ''.env''\<rparr>)"
  by code_simp

section \<open>Properties of the tree enumerator\<close>

lemma listable_Cons:
  "listable names \<Longrightarrow> d \<notin> set skipDirs \<Longrightarrow> listable (d # names)"
  by (cases names) (auto simp add: listable_def)

lemma listable_single:
  "\<not> startsWith f ''.'' \<Longrightarrow> f \<notin> set skipFiles \<Longrightarrow> listable [f]"
  by (simp add: listable_def)

lemma holds_file_later:
  "holds_file (Dir rest) names sz \<Longrightarrow> holds_file (Dir (x # rest)) names sz"
  by (cases names) auto

text \<open>
  Every entry of the walk's result was in the array it started with, or is the entry of a
  file of the tree at listable names.
\<close>

lemma walk_origin:
  "getAllFiles dirPath n acc = Inr out \<Longrightarrow> e \<in> set out \<Longrightarrow>
     e \<in> set acc \<or> (\<exists>names sz. listable names \<and> holds_file n names sz
                          \<and> e = entry_for (dirPath @ names) sz)"
  "forEach_file dirPath entries acc = Inr out \<Longrightarrow> e \<in> set out \<Longrightarrow>
     e \<in> set acc \<or> (\<exists>names sz. listable names \<and> holds_file (Dir entries) names sz
                          \<and> e = entry_for (dirPath @ names) sz)"
proof (induction dirPath n acc and dirPath entries acc arbitrary: out and out
       rule: getAllFiles_forEach_file.induct)
  case (1 dirPath files arrayOfFiles)
  then show ?case by simp
next
  case (2 dirPath n arrayOfFiles)
  then show ?case by simp
next
  case (3 dirPath msg arrayOfFiles)
  then show ?case by simp
next
  case (4 dirPath msg arrayOfFiles)
  then show ?case by simp
next
  case (5 dirPath arrayOfFiles)
  then show ?case by simp
next
  case (6 dirPath fname d rest arrayOfFiles)
  from "6.prems"(1) obtain st where st: "statSync d = Inr st"
    by (auto split: sum.splits)
  let ?rest_origin = "\<exists>names sz. listable names \<and> holds_file (Dir rest) names sz
                        \<and> e = entry_for (dirPath @ names) sz"
  show ?case
  proof (cases "isDirectory st")
    case True
    show ?thesis
    proof (cases "fname \<in> set skipDirs")
      case skipped: True
      with "6.prems" st True have run: "forEach_file dirPath rest arrayOfFiles = Inr out"
        by simp
      from "6.IH"(3) [OF st True _ run "6.prems"(2)] skipped
      have "e \<in> set arrayOfFiles \<or> ?rest_origin" by simp
      then show ?thesis using holds_file_later by blast
    next
      case False
      with "6.prems"(1) st True obtain mid where
        mid: "getAllFiles (dirPath @ [fname]) d arrayOfFiles = Inr mid"
        and run: "forEach_file dirPath rest mid = Inr out"
        by (auto split: sum.splits)
      from "6.IH"(2) [OF st True False mid run "6.prems"(2)]
      consider "e \<in> set mid" | "?rest_origin" by auto
      then show ?thesis
      proof cases
        case 1
        from "6.IH"(1) [OF st True False mid 1]
        consider "e \<in> set arrayOfFiles"
          | names sz where "listable names" "holds_file d names sz"
              "e = entry_for ((dirPath @ [fname]) @ names) sz"
          by auto
        then show ?thesis
        proof cases
          case 1
          then show ?thesis by simp
        next
          case 2
          have "listable (fname # names)" using 2(1) False by (rule listable_Cons)
          moreover have "holds_file (Dir ((fname, d) # rest)) (fname # names) sz"
            using 2(2) by simp
          moreover have "e = entry_for (dirPath @ (fname # names)) sz" using 2(3) by simp
          ultimately show ?thesis by blast
        qed
      next
        case 2
        then show ?thesis using holds_file_later by blast
      qed
    qed
  next
    case False
    with st have d: "d = File (size_of st)"
      by (cases d) (auto simp add: statSync_def)
    show ?thesis
    proof (cases "\<not> startsWith fname ''.'' \<and> fname \<notin> set skipFiles")
      case pushed: True
      with "6.prems"(1) st False
      have run: "forEach_file dirPath rest
                   (arrayOfFiles @ [entry_for (dirPath @ [fname]) (size_of st)]) = Inr out"
        by (simp add: entry_for_def)
      from "6.IH"(4) [OF st False pushed] run "6.prems"(2)
      have "e \<in> set (arrayOfFiles @ [entry_for (dirPath @ [fname]) (size_of st)])
              \<or> ?rest_origin"
        by (simp add: entry_for_def)
      then consider "e \<in> set arrayOfFiles" | "e = entry_for (dirPath @ [fname]) (size_of st)"
        | "?rest_origin"
        by auto
      then show ?thesis
      proof cases
        case 1
        then show ?thesis by simp
      next
        case 2
        have "listable [fname]" using pushed by (simp add: listable_single)
        moreover have "holds_file (Dir ((fname, d) # rest)) [fname] (size_of st)"
          using d by simp
        ultimately show ?thesis using 2 by blast
      next
        case 3
        then show ?thesis using holds_file_later by blast
      qed
    next
      case unpushed: False
      with "6.prems"(1) st False have run: "forEach_file dirPath rest arrayOfFiles = Inr out"
        by auto
      from "6.IH"(5) [OF st False unpushed run "6.prems"(2)]
      have "e \<in> set arrayOfFiles \<or> ?rest_origin" .
      then show ?thesis using holds_file_later by blast
    qed
  qed
qed

lemma scenario_walk:
  "getAllFiles [] scenario_root [] = Inr [\<lparr>entry_path = ''a.txt'', entry_size = 10\<rparr>]"
  by (simp add: scenario_root_def statSync_def startsWith_def skipDirs_def skipFiles_def
        normalize_separators_def)

text \<open>
  C6. Every entry that the local enumerator returns is the entry of a file of the tree,
  reached through directories none of which is named \<^verbatim>\<open>node_modules\<close>, \<^verbatim>\<open>.git\<close>, \<^verbatim>\<open>public\<close>,
  \<^verbatim>\<open>.vscode\<close> or \<^verbatim>\<open>.github\<close>, and whose own name neither starts with a dot nor is one of
  the excluded file names. On the root that holds \<^verbatim>\<open>a.txt\<close> (10 bytes), \<^verbatim>\<open>.env\<close> (5 bytes)
  and \<^verbatim>\<open>node_modules/x.js\<close> (5 bytes) the result is the single entry \<^verbatim>\<open>a.txt\<close>.
\<close>

theorem enumerator_respects_exclusions:
  "(repo_files_local repoDir = Reply 200 (Payload out) \<longrightarrow>
      (\<forall>e \<in> set (files out). \<exists>names sz.
          holds_file repoDir names sz \<and> e = entry_for names sz \<and> names \<noteq> []
          \<and> (\<forall>d \<in> set (butlast names).
                d \<notin> {''node_modules'', ''.git'', ''public'', ''.vscode'', ''.github''})
          \<and> \<not> startsWith (last names) ''.''
          \<and> last names \<notin> set skipFiles))
   \<and> repo_files_local scenario_root =
       Reply 200 (Payload \<lparr>files = [\<lparr>entry_path = ''a.txt'', entry_size = 10\<rparr>], total = 1\<rparr>)"
proof (intro conjI impI ballI)
  fix e
  assume r: "repo_files_local repoDir = Reply 200 (Payload out)" and e: "e \<in> set (files out)"
  from r obtain every where ev: "getAllFiles [] repoDir [] = Inr every"
    and out: "files out = filter (\<lambda>f. entry_size f < 500000) every"
    by (auto simp add: repo_files_local_def Let_def split: sum.splits)
  from e out have "e \<in> set every" by simp
  from walk_origin(1) [OF ev this] obtain names sz where
    "listable names" "holds_file repoDir names sz" "e = entry_for names sz"
    by auto
  then show "\<exists>names sz.
          holds_file repoDir names sz \<and> e = entry_for names sz \<and> names \<noteq> []
          \<and> (\<forall>d \<in> set (butlast names).
                d \<notin> {''node_modules'', ''.git'', ''public'', ''.vscode'', ''.github''})
          \<and> \<not> startsWith (last names) ''.''
          \<and> last names \<notin> set skipFiles"
    by (auto simp add: listable_def list_all_iff skipDirs_def)
next
  show "repo_files_local scenario_root =
       Reply 200 (Payload \<lparr>files = [\<lparr>entry_path = ''a.txt'', entry_size = 10\<rparr>], total = 1\<rparr>)"
    by (simp add: repo_files_local_def scenario_walk)
qed

theorem enumerator_respects_exclusions_witness:
  "repo_files_local scenario_root =
     Reply 200 (Payload \<lparr>files = [\<lparr>entry_path = ''a.txt'', entry_size = 10\<rparr>], total = 1\<rparr>)
   \<and> \<lparr>entry_path = ''a.txt'', entry_size = 10\<rparr>
       \<in> set (files \<lparr>files = [\<lparr>entry_path = ''a.txt'', entry_size = 10\<rparr>], total = 1\<rparr>)
   \<and> (\<exists>names sz.
          holds_file scenario_root names sz
          \<and> \<lparr>entry_path = ''a.txt'', entry_size = 10\<rparr> = entry_for names sz \<and> names \<noteq> []
          \<and> list_all (\<lambda>d. d \<notin> {''node_modules'', ''.git'', ''public'', ''.vscode'', ''.github''})
                (butlast names)
          \<and> \<not> startsWith (last names) ''.''
          \<and> last names \<notin> set skipFiles)"
proof -
  let ?a = "\<lparr>entry_path = ''a.txt'', entry_size = 10\<rparr>"
  let ?out = "\<lparr>files = [?a], total = 1\<rparr>"
  note t = enumerator_respects_exclusions [of scenario_root ?out]
  from t have r: "repo_files_local scenario_root = Reply 200 (Payload ?out)"
    by (rule conjunct2)
  have m: "?a \<in> set (files ?out)" by simp
  from t r have "\<forall>e \<in> set (files ?out). \<exists>names sz.
          holds_file scenario_root names sz \<and> e = entry_for names sz \<and> names \<noteq> []
          \<and> (\<forall>d \<in> set (butlast names).
                d \<notin> {''node_modules'', ''.git'', ''public'', ''.vscode'', ''.github''})
          \<and> \<not> startsWith (last names) ''.''
          \<and> last names \<notin> set skipFiles"
    by blast
  from bspec [OF this m] have "\<exists>names sz.
          holds_file scenario_root names sz \<and> ?a = entry_for names sz \<and> names \<noteq> []
          \<and> list_all (\<lambda>d. d \<notin> {''node_modules'', ''.git'', ''public'', ''.vscode'', ''.github''})
                (butlast names)
          \<and> \<not> startsWith (last names) ''.''
          \<and> last names \<notin> set skipFiles"
    unfolding list_all_iff .
  with r m show ?thesis by blast
qed




end
